theory Spec2Isabelle
  imports Complex_Main
begin

section \<open>Aggregate loss calculators of gemact (calculators.py)\<close>

text \<open>
  The class \<open>LossModelCalculator\<close> of \<open>src/gemact/calculators.py\<close> holds five severity
  discretization methods and three aggregation methods. They are embedded here as HOL
  functions over exact arithmetic: a Python/numpy float is a \<open>real\<close>, a one-dimensional
  numpy array is a list, an elementwise operation on arrays is a \<open>map\<close> (or a \<open>map\<close> over a
  \<open>zip\<close> for two arrays of the same length), a slice is \<open>take\<close>/\<open>drop\<close>. Rounding, and the
  values \<open>inf\<close> and \<open>nan\<close> that numpy returns for a float division by zero, are outside
  this model (HOL's \<open>x / 0\<close> is \<open>0\<close>); the one infinite value that the code tests for,
  \<open>exit_point == float('inf')\<close>, is a constructor of its own. Every exception that the
  code can raise on the shape of its input is an \<open>Inl\<close> result.
\<close>

subsection \<open>Data model\<close>

datatype error = ValueError | IndexError | ZeroDivisionError

text \<open>The argument \<open>exit_point\<close>: a finite float or \<open>float('inf')\<close>.\<close>

datatype exit_point = Finite real | PosInf

text \<open>
  The severity model, as far as the calculators use it: \<open>severity.model.cdf\<close>,
  \<open>severity.model.ppf\<close>, \<open>severity.model.lev\<close>, \<open>severity.model.den(low, loc)\<close> and
  \<open>severity.loc\<close>. The distribution classes are not part of calculators.py, so they are
  parameters. On an array they act elementwise.
\<close>

record severity =
  sev_cdf :: "real \<Rightarrow> real"
  sev_ppf :: "real \<Rightarrow> real"
  sev_lev :: "real \<Rightarrow> real"
  sev_den :: "real \<Rightarrow> real \<Rightarrow> real"
  sev_loc :: real

text \<open>The dictionary \<open>{'nodes': nodes, 'fj': fj}\<close> returned by a discretization.\<close>

record discretized =
  nodes :: "real list"
  fj :: "real list"

text \<open>\<open>np.arange(a, b)\<close> for integers \<open>a\<close>, \<open>b\<close>, as floats.\<close>

definition arange :: "nat \<Rightarrow> nat \<Rightarrow> real list" where
  "arange a b = map real [a..<b]"

text \<open>\<open>x[1:] - x[:-1]\<close>, the differences of neighbours of an array.\<close>

definition adj_diffs :: "real list \<Rightarrow> real list" where
  "adj_diffs c = map (\<lambda>(x, y). x - y) (zip (tl c) (butlast c))"

subsection \<open>Severity discretization\<close>

text \<open>
  \<open>nodes = np.concatenate((nodes, [nodes[-1] + discr_step]))\<close>: \<open>nodes[-1]\<close> raises
  IndexError on an empty array.
\<close>

definition extend_nodes :: "real list \<Rightarrow> real \<Rightarrow> error + real list" where
  "extend_nodes ns discr_step =
     (if ns = [] then Inl IndexError else Inr (ns @ [last ns + discr_step]))"

definition mass_dispersal ::
  "severity \<Rightarrow> real \<Rightarrow> exit_point \<Rightarrow> real \<Rightarrow> nat \<Rightarrow> error + discretized" where
  "mass_dispersal severity deductible exit_pt discr_step n_discr_nodes =
     (let f0 = (sev_cdf severity (deductible + discr_step / 2) - sev_cdf severity deductible)
                / (1 - sev_cdf severity deductible);
          nodes0 = map (\<lambda>x. x + 1 / 2) (arange 0 n_discr_nodes);
          c = map (\<lambda>x. sev_cdf severity (deductible + x * discr_step)) nodes0;
          fj0 = f0 # map (\<lambda>x. x / (1 - sev_cdf severity deductible)) (adj_diffs c);
          fj1 = (case exit_pt of
                   PosInf \<Rightarrow> fj0
                 | Finite u \<Rightarrow> fj0 @ [(1 - sev_cdf severity (u - discr_step / 2))
                                       / (1 - sev_cdf severity deductible)]);
          nodes1 = map (\<lambda>x. sev_loc severity + x * discr_step) (arange 0 n_discr_nodes)
      in case exit_pt of
           PosInf \<Rightarrow> Inr \<lparr>nodes = nodes1, fj = fj1\<rparr>
         | Finite u \<Rightarrow>
             (case extend_nodes nodes1 discr_step of
                Inl e \<Rightarrow> Inl e
              | Inr nodes2 \<Rightarrow> Inr \<lparr>nodes = nodes2, fj = fj1\<rparr>))"

definition lower_discretization ::
  "severity \<Rightarrow> real \<Rightarrow> exit_point \<Rightarrow> real \<Rightarrow> nat \<Rightarrow> error + discretized" where
  "lower_discretization severity deductible exit_pt discr_step n_discr_nodes =
     (let f0 = (sev_cdf severity deductible - sev_cdf severity deductible)
                / (1 - sev_cdf severity deductible);
          nodes0 = arange 0 n_discr_nodes;
          c = map (\<lambda>x. sev_cdf severity (deductible + x * discr_step)) nodes0;
          fj0 = f0 # map (\<lambda>x. x / (1 - sev_cdf severity deductible)) (adj_diffs c);
          fj1 = (case exit_pt of
                   PosInf \<Rightarrow> fj0
                 | Finite u \<Rightarrow> fj0 @ [(1 - sev_cdf severity (u - discr_step))
                                       / (1 - sev_cdf severity deductible)]);
          nodes1 = map (\<lambda>x. sev_loc severity + x * discr_step) (arange 0 n_discr_nodes)
      in case exit_pt of
           PosInf \<Rightarrow> Inr \<lparr>nodes = nodes1, fj = fj1\<rparr>
         | Finite u \<Rightarrow>
             (case extend_nodes nodes1 discr_step of
                Inl e \<Rightarrow> Inl e
              | Inr nodes2 \<Rightarrow> Inr \<lparr>nodes = nodes2, fj = fj1\<rparr>))"

text \<open>
  \<open>upper_discretization\<close> never reads \<open>nodes[-1]\<close>: its node grid is returned as built,
  whatever the exit point.
\<close>

definition upper_discretization ::
  "severity \<Rightarrow> real \<Rightarrow> exit_point \<Rightarrow> real \<Rightarrow> nat \<Rightarrow> error + discretized" where
  "upper_discretization severity deductible exit_pt discr_step n_discr_nodes =
     (let nodes0 = arange 0 (n_discr_nodes + 1);
          c = map (\<lambda>x. sev_cdf severity (deductible + x * discr_step)) nodes0;
          fj0 = map (\<lambda>x. x / (1 - sev_cdf severity deductible)) (adj_diffs c);
          fj1 = (case exit_pt of
                   PosInf \<Rightarrow> fj0
                 | Finite u \<Rightarrow> fj0 @ [(1 - sev_cdf severity u)
                                       / (1 - sev_cdf severity deductible)]);
          nodes1 = map (\<lambda>x. sev_loc severity + x * discr_step) (arange 0 n_discr_nodes)
      in Inr \<lparr>nodes = nodes1, fj = fj1\<rparr>)"

text \<open>
  The adjuster returns \<open>np.array([])\<close> for an infinite exit point and a scalar otherwise;
  its only use is as the second argument of \<open>np.append\<close>, where a scalar is one entry,
  so the result is a list of no or one entry.
\<close>

definition upper_discr_point_prob_adjuster ::
  "severity \<Rightarrow> real \<Rightarrow> exit_point \<Rightarrow> real \<Rightarrow> real list" where
  "upper_discr_point_prob_adjuster severity deductible exit_pt discr_step =
     (case exit_pt of
        PosInf \<Rightarrow> []
      | Finite u \<Rightarrow>
          [(sev_lev severity (u - sev_loc severity)
             - sev_lev severity (u - sev_loc severity - discr_step))
           / (discr_step * sev_den severity deductible (sev_loc severity))])"

definition local_moments ::
  "severity \<Rightarrow> real \<Rightarrow> exit_point \<Rightarrow> real \<Rightarrow> nat \<Rightarrow> error + discretized" where
  "local_moments severity deductible exit_pt discr_step n_discr_nodes =
     (let last_node_prob =
            upper_discr_point_prob_adjuster severity deductible exit_pt discr_step;
          n = sev_lev severity (deductible + discr_step - sev_loc severity)
              - sev_lev severity (deductible - sev_loc severity);
          den = discr_step * sev_den severity deductible (sev_loc severity);
          levs = (\<lambda>a b. map (\<lambda>x. sev_lev severity (deductible - sev_loc severity + x * discr_step))
                            (arange a b));
          nj = map (\<lambda>(x, y, z). 2 * x - y - z)
                 (zip (levs 1 n_discr_nodes)
                    (zip (levs 0 (n_discr_nodes - 1)) (levs 2 (n_discr_nodes + 1))));
          fj0 = (1 - n / den) # map (\<lambda>x. x / den) nj;
          nodes1 = map (\<lambda>x. sev_loc severity + x * discr_step) (arange 0 n_discr_nodes)
      in case exit_pt of
           PosInf \<Rightarrow> Inr \<lparr>nodes = nodes1, fj = fj0 @ last_node_prob\<rparr>
         | Finite u \<Rightarrow>
             (case extend_nodes nodes1 discr_step of
                Inl e \<Rightarrow> Inl e
              | Inr nodes2 \<Rightarrow> Inr \<lparr>nodes = nodes2, fj = fj0 @ last_node_prob\<rparr>))"

text \<open>A severity uniform on the interval from 0 to 4, used for concrete evaluations.\<close>

definition uniform4 :: severity where
  "uniform4 = \<lparr>sev_cdf = (\<lambda>x. min 1 (max 0 (x / 4))),
               sev_ppf = (\<lambda>p. 4 * p),
               sev_lev = (\<lambda>x. if x \<le> 0 then 0 else if x \<ge> 4 then 2 else x - x * x / 8),
               sev_den = (\<lambda>low loc. 1 - min 1 (max 0 ((low - loc) / 4))),
               sev_loc = 0\<rparr>"

subsection \<open>Total mass of a discretization\<close>

text \<open>
  The sum of the returned \<open>fj\<close> is within \<open>tol\<close> of 1 (a raised exception does not count),
  and the mass that the returned \<open>fj\<close> leaves out.
\<close>

definition fj_sums_to_one :: "real \<Rightarrow> error + discretized \<Rightarrow> bool" where
  "fj_sums_to_one tol res =
     (case res of Inl e \<Rightarrow> False | Inr r \<Rightarrow> \<bar>sum_list (fj r) - 1\<bar> \<le> tol)"

definition fj_shortfall :: "error + discretized \<Rightarrow> real option" where
  "fj_shortfall res = (case res of Inl e \<Rightarrow> None | Inr r \<Rightarrow> Some (1 - sum_list (fj r)))"

section \<open>Aggregation\<close>

subsection \<open>Data model\<close>

text \<open>
  The frequency model, as far as the calculators use it. Its classes are not part of
  calculators.py, so its methods are parameters: \<open>frequency.model.pgf\<close>, applied
  elementwise to an array of transform values; \<open>frequency.model.pmf\<close>;
  \<open>frequency.model.rvs(n_sim, random_state=...)\<close>, a function of the count and the seed
  that may raise; and \<open>frequency.abp0g0(fj)\<close>, which returns the numbers \<open>a\<close>, \<open>b\<close>, \<open>p0\<close>
  and the one-entry sequence \<open>g = [g0]\<close> that the recursion extends with \<open>np.insert\<close>.
\<close>

record frequency =
  freq_pgf :: "complex \<Rightarrow> complex"
  freq_pmf :: "nat \<Rightarrow> real"
  freq_rvs :: "nat \<Rightarrow> int \<Rightarrow> error + nat list"
  freq_abp0g0 :: "real list \<Rightarrow> real \<times> real \<times> real \<times> real"

text \<open>The dictionary \<open>{'cdf': ..., 'nodes': ...}\<close> returned by an aggregation.\<close>

record aggregate =
  cdf :: "real list"
  aggr_nodes :: "real list"

text \<open>
  \<open>logger.warning(message)\<close>: the message is the fixed text "Failure to obtain a cumulative
  distribution function close to 1. Last calculated cumulative probability is %s." filled
  with \<open>cum_probs[-1]\<close> printed to four decimals. The record keeps the number printed.
\<close>

datatype log_record = Warning real

text \<open>\<open>np.cumsum\<close>.\<close>

fun cumsum_from :: "real \<Rightarrow> real list \<Rightarrow> real list" where
  "cumsum_from acc [] = []"
| "cumsum_from acc (x # xs) = (acc + x) # cumsum_from (acc + x) xs"

definition cumsum :: "real list \<Rightarrow> real list" where
  "cumsum xs = cumsum_from 0 xs"

text \<open>
  \<open>np.append(fj, np.repeat(0, n_aggr_dist_nodes - fj.shape[0]))\<close>: \<open>np.repeat\<close> raises
  ValueError on a negative count.
\<close>

definition pad_zeros :: "real list \<Rightarrow> nat \<Rightarrow> error + real list" where
  "pad_zeros xs m =
     (if m < length xs then Inl ValueError else Inr (xs @ replicate (m - length xs) 0))"

subsection \<open>Fast Fourier transform\<close>

text \<open>
  \<open>fft\<close> and \<open>ifft\<close> are library functions: the discrete Fourier transform and its
  inverse. Both raise ValueError on an empty array, which the caller below tests.
\<close>

definition fft :: "complex list \<Rightarrow> complex list" where
  "fft xs = map (\<lambda>k. \<Sum>n\<leftarrow>[0..<length xs].
                     xs ! n * cis (- 2 * pi * real k * real n / real (length xs)))
              [0..<length xs]"

definition ifft :: "complex list \<Rightarrow> complex list" where
  "ifft ys = map (\<lambda>n. (\<Sum>k\<leftarrow>[0..<length ys].
                     ys ! k * cis (2 * pi * real k * real n / real (length ys)))
                     / of_nat (length ys))
              [0..<length ys]"

text \<open>
  \<open>prob_tolerance\<close> is \<open>config.PROB_TOLERANCE\<close>, a constant of a module that is not part of
  calculators.py, so it is a parameter. The flag \<open>normalize\<close> of both methods is written
  \<open>normalise\<close>, since HOL has a constant of the first name. \<open>20 / n_aggr_dist_nodes\<close> is a
  division of Python integers, which raises ZeroDivisionError for no nodes.
\<close>

definition fast_fourier_transform ::
  "real \<Rightarrow> discretized \<Rightarrow> frequency \<Rightarrow> nat \<Rightarrow> real \<Rightarrow> bool \<Rightarrow> real option \<Rightarrow> bool
     \<Rightarrow> error + (aggregate \<times> log_record list)" where
  "fast_fourier_transform prob_tolerance severity frequency n_aggr_dist_nodes discr_step
       tilt tilt_value normalise =
     (if tilt \<and> tilt_value = None \<and> n_aggr_dist_nodes = 0 then Inl ZeroDivisionError
      else
        let tilting_par =
              (if tilt
               then (case tilt_value of None \<Rightarrow> 20 / real n_aggr_dist_nodes | Some v \<Rightarrow> v)
               else 0)
        in case pad_zeros (fj severity) n_aggr_dist_nodes of
             Inl e \<Rightarrow> Inl e
           | Inr fj1 \<Rightarrow>
               if n_aggr_dist_nodes = 0 then Inl ValueError
               else
                 let f_hat = fft (map (\<lambda>(t, f). complex_of_real (t * f))
                               (zip (map (\<lambda>i. exp (- tilting_par * i))
                                       (arange 0 n_aggr_dist_nodes)) fj1));
                     g_hat = map (freq_pgf frequency) f_hat;
                     g = map (\<lambda>(t, x). t * x)
                           (zip (map (\<lambda>i. exp (tilting_par * i)) (arange 0 n_aggr_dist_nodes))
                                (map Re (ifft g_hat)));
                     g1 = (if normalise then map (\<lambda>x. x / sum_list g) g else g);
                     cum_probs = map (\<lambda>x. min x 1) (cumsum g1)
                 in Inr (\<lparr>cdf = cum_probs,
                          aggr_nodes = map (\<lambda>i. discr_step * i) (arange 0 n_aggr_dist_nodes)\<rparr>,
                         if 1 - last cum_probs > prob_tolerance
                         then [Warning (last cum_probs)] else []))"

subsection \<open>Panjer recursion\<close>

text \<open>
  One pass of the loop body for the index \<open>j\<close>: the new value is inserted at position 0 of
  \<open>g\<close>, so \<open>g\<close> holds the values computed so far, the latest first.
\<close>

definition panjer_step :: "real \<Rightarrow> real \<Rightarrow> real list \<Rightarrow> nat \<Rightarrow> real list \<Rightarrow> real list" where
  "panjer_step a b fj1 j g =
     sum_list (map (\<lambda>(c, f, x). c * f * x)
                (zip (map (\<lambda>i. a + b * i / real j) (arange 1 (j + 1)))
                     (zip (take j (drop 1 fj1)) (take j g))))
     # g"

definition panjer_recursion ::
  "real \<Rightarrow> frequency \<Rightarrow> discretized \<Rightarrow> nat \<Rightarrow> real \<Rightarrow> bool
     \<Rightarrow> error + (aggregate \<times> log_record list)" where
  "panjer_recursion prob_tolerance frequency severity n_aggr_dist_nodes discr_step normalise =
     (case freq_abp0g0 frequency (fj severity) of
        (a, b, p0, g0) \<Rightarrow>
          (case pad_zeros (fj severity) n_aggr_dist_nodes of
             Inl e \<Rightarrow> Inl e
           | Inr fj1 \<Rightarrow>
               let fpmf = freq_pmf frequency 1;
                   gl = fold (panjer_step a b fj1) [1..<n_aggr_dist_nodes] [g0]
               in if fj1 = [] then Inl IndexError
                  else
                    let g = map (\<lambda>x. x / (1 - a * fj1 ! 0))
                              (map (\<lambda>(x, y). x + y)
                                 (zip (map (\<lambda>f. (fpmf - (a + b) * p0) * f) fj1) (rev gl)));
                        g1 = (if normalise then map (\<lambda>x. x / sum_list g) g else g);
                        cum_probs = map (\<lambda>x. min x 1) (cumsum g1)
                    in Inr (\<lparr>cdf = cum_probs,
                             aggr_nodes = map (\<lambda>i. discr_step * i)
                                            (arange 0 n_aggr_dist_nodes)\<rparr>,
                            if 1 - last cum_probs > prob_tolerance
                            then [Warning (last cum_probs)] else [])))"

subsection \<open>The aggregation outputs by index, as specified\<close>

text \<open>
  The outputs in the words of the claims, to be compared with the code above: the
  cumulative sums of a mass vector clipped at 1, the optional normalization to total mass
  1, the Panjer recursion by index with its masses (as claimed, and as amended), and the
  tilted transform by index.
\<close>

definition clipped_cumulative :: "real list \<Rightarrow> real list" where
  "clipped_cumulative g = map (\<lambda>k. min (\<Sum>i\<leftarrow>[0..<Suc k]. g ! i) 1) [0..<length g]"

definition normalised :: "bool \<Rightarrow> real list \<Rightarrow> real list" where
  "normalised flag g = (if flag then map (\<lambda>x. x / sum_list g) g else g)"

text \<open>
  \<open>g[j]\<close> is the sum of \<open>(a + b i / j) fj[i] g[j - i]\<close> over \<open>i = 1, ..., j\<close>, started at
  \<open>g[0] = g0\<close>.
\<close>

function panjer_h :: "real \<Rightarrow> real \<Rightarrow> real list \<Rightarrow> real \<Rightarrow> nat \<Rightarrow> real" where
  "panjer_h a b f g0 j =
     (if j = 0 then g0
      else (\<Sum>i\<leftarrow>[1..<Suc j]. (a + b * real i / real j) * f ! i * panjer_h a b f g0 (j - i)))"
  by pat_completeness auto
termination
  by (relation "measure (\<lambda>(a, b, f, g0, j). j)") auto
declare panjer_h.simps [simp del]


text \<open>
  The masses of the amended claim: at every index \<open>j\<close>, the zeroth included, the
  recursion's value plus \<open>(pmf(1) - (a + b) p0) fj[j]\<close>, the sum divided by \<open>1 - a fj[0]\<close>.
\<close>

definition panjer_pmf ::
  "real \<Rightarrow> real \<Rightarrow> real \<Rightarrow> real \<Rightarrow> real \<Rightarrow> real list \<Rightarrow> nat \<Rightarrow> real list" where
  "panjer_pmf a b p0 g0 fpmf f m =
     map (\<lambda>j. ((fpmf - (a + b) * p0) * f ! j + panjer_h a b f g0 j) / (1 - a * f ! 0)) [0..<m]"

definition fft_theta :: "bool \<Rightarrow> real option \<Rightarrow> nat \<Rightarrow> real" where
  "fft_theta tilt tilt_value m =
     (if tilt then (case tilt_value of Some v \<Rightarrow> v | None \<Rightarrow> 20 / real m) else 0)"

definition fft_pmf :: "frequency \<Rightarrow> real list \<Rightarrow> nat \<Rightarrow> real \<Rightarrow> real list" where
  "fft_pmf frequency f m \<theta> =
     map (\<lambda>i. exp (\<theta> * real i)
               * Re (ifft (map (freq_pgf frequency)
                       (fft (map (\<lambda>i. complex_of_real (exp (- \<theta> * real i) * f ! i)) [0..<m])))
                     ! i))
       [0..<m]"

text \<open>
  Concrete inputs for evaluation: a claim count that is 0 or 1 with probability one half
  each (binomial, so \<open>a = -1\<close>, \<open>b = 2\<close>, \<open>p0 = 1/2\<close>, \<open>g0 = pgf(fj[0])\<close>), with a sampler
  that alternates, and a severity of exactly one unit.
\<close>

definition bernoulli_half :: frequency where
  "bernoulli_half =
     \<lparr>freq_pgf = (\<lambda>z. (1 + z) / 2),
      freq_pmf = (\<lambda>k. if k \<le> 1 then 1 / 2 else 0),
      freq_rvs = (\<lambda>n s. Inr (map (\<lambda>i. nat ((s + int i) mod 2)) [0..<n])),
      freq_abp0g0 = (\<lambda>f. (- 1, 2, 1 / 2, (1 + f ! 0) / 2))\<rparr>"

definition unit_claims :: discretized where
  "unit_claims = \<lparr>nodes = [0, 1], fj = [0, 1]\<rparr>"



subsection \<open>Monte Carlo simulation\<close>

text \<open>
  What \<open>mc_simulation\<close> takes from outside calculators.py: the global generator of
  \<open>np.random\<close>, with state \<open>'g\<close> (\<open>np.random.seed\<close> replaces the state by one that the
  seed determines, and each draw of \<open>random_sample\<close> advances it), and \<open>hf.ecdf\<close> of the
  module helperfunctions.
\<close>

record 'g library =
  np_random_seed :: "int \<Rightarrow> 'g"
  np_random_next :: "'g \<Rightarrow> real \<times> 'g"
  hf_ecdf :: "real list \<Rightarrow> real \<Rightarrow> real"

text \<open>\<open>size\<close> draws of the generator, left to right.\<close>

fun random_sample :: "('g \<Rightarrow> real \<times> 'g) \<Rightarrow> nat \<Rightarrow> 'g \<Rightarrow> real list \<times> 'g" where
  "random_sample nxt 0 st = ([], st)"
| "random_sample nxt (Suc n) st =
     (case nxt st of (x, st1) \<Rightarrow>
        (case random_sample nxt n st1 of (xs, st2) \<Rightarrow> (x # xs, st2)))"

text \<open>\<open>np.random.uniform(low, high, size)\<close>: \<open>low + (high - low) * random_sample(size)\<close>.\<close>

definition np_random_uniform ::
  "'g library \<Rightarrow> real \<Rightarrow> real \<Rightarrow> nat \<Rightarrow> 'g \<Rightarrow> real list \<times> 'g" where
  "np_random_uniform lib low high n st =
     (case random_sample (np_random_next lib) n st of
        (rs, st1) \<Rightarrow> (map (\<lambda>r. low + (high - low) * r) rs, st1))"

text \<open>\<open>np.cumsum\<close> on the integer claim counts.\<close>

fun cumsum_nat_from :: "nat \<Rightarrow> nat list \<Rightarrow> nat list" where
  "cumsum_nat_from acc [] = []"
| "cumsum_nat_from acc (x # xs) = (acc + x) # cumsum_nat_from (acc + x) xs"

text \<open>
  \<open>ary[st:end]\<close> for non-negative bounds, and \<open>np.split(ary, indices)\<close>, which cuts at
  \<open>div_points = [0] + indices + [len(ary)]\<close> into \<open>len(indices) + 1\<close> pieces.
\<close>

definition py_slice :: "'a list \<Rightarrow> nat \<Rightarrow> nat \<Rightarrow> 'a list" where
  "py_slice xs st en = take (en - st) (drop st xs)"

definition np_split :: "'a list \<Rightarrow> nat list \<Rightarrow> 'a list list" where
  "np_split ary indices =
     (let div_points = 0 # indices @ [length ary]
      in map (\<lambda>i. py_slice ary (div_points ! i) (div_points ! (i + 1)))
           [0..<length indices + 1])"

text \<open>\<open>np.unique\<close>: the distinct values, sorted.\<close>

definition np_unique :: "real list \<Rightarrow> real list" where
  "np_unique xs = sort (remdups xs)"

text \<open>
  The body of \<open>mc_simulation\<close> in its three stages: \<open>p0\<close> (line 131, with the float literal
  \<open>1e-05\<close> as the exact fraction), the severity sample (lines 134 to 138;
  \<open>np.random.seed\<close> raises ValueError for a seed outside \<open>0 .. 2^32 - 1\<close>), and the
  aggregate realizations \<open>xsim\<close> (lines 140 and 141; the slice \<open>[:(n_sim-1)]\<close> drops the
  last entry when \<open>n_sim\<close> is 0). The function takes the state of the global generator
  and returns the new one with the result.
\<close>

definition mc_p0 :: "severity \<Rightarrow> real \<Rightarrow> real" where
  "mc_p0 severity deductible =
     (if deductible > 1 / 100000 then sev_cdf severity deductible else 0)"

definition mc_svsample ::
  "'g library \<Rightarrow> severity \<Rightarrow> real \<Rightarrow> real \<Rightarrow> nat list \<Rightarrow> int \<Rightarrow> error + (real list \<times> 'g)" where
  "mc_svsample lib severity cover deductible fqsample random_state =
     (if random_state + 1 < 0 \<or> 2 ^ 32 \<le> random_state + 1 then Inl ValueError
      else
        case np_random_uniform lib (mc_p0 severity deductible) 1 (sum_list fqsample)
               (np_random_seed lib (random_state + 1)) of
          (us, st1) \<Rightarrow>
            Inr (map (\<lambda>x. min (x - deductible) cover) (map (sev_ppf severity) us), st1))"

definition mc_xsim :: "real list \<Rightarrow> nat list \<Rightarrow> nat \<Rightarrow> real list" where
  "mc_xsim svsample fqsample n_sim =
     (let c = cumsum_nat_from 0 fqsample;
          cs = (if n_sim = 0 then butlast c else take (n_sim - 1) c)
      in map sum_list (np_split svsample cs))"

definition mc_simulation ::
  "'g library \<Rightarrow> severity \<Rightarrow> frequency \<Rightarrow> real \<Rightarrow> real \<Rightarrow> nat \<Rightarrow> int \<Rightarrow> 'g
     \<Rightarrow> error + (aggregate \<times> 'g)" where
  "mc_simulation lib severity frequency cover deductible n_sim random_state st =
     (case freq_rvs frequency n_sim random_state of
        Inl e \<Rightarrow> Inl e
      | Inr fqsample \<Rightarrow>
          (case mc_svsample lib severity cover deductible fqsample random_state of
             Inl e \<Rightarrow> Inl e
           | Inr (svsample, st1) \<Rightarrow>
               let xsim = mc_xsim svsample fqsample n_sim;
                   x_u = np_unique xsim;
                   cdf_u = map (hf_ecdf lib xsim) x_u
               in Inr (\<lparr>cdf = cdf_u, aggr_nodes = x_u\<rparr>, st1)))"

text \<open>
  A generator for concrete evaluations: its state is a counter, a draw is a quarter of
  the counter modulo 4; \<open>ecdf\<close> is the share of the sample at or below a point.
\<close>

definition counter_library :: "nat library" where
  "counter_library =
     \<lparr>np_random_seed = (\<lambda>s. nat s),
      np_random_next = (\<lambda>g. (real (g mod 4) / 4, g + 1)),
      hf_ecdf = (\<lambda>xs y. real (length (filter (\<lambda>x. x \<le> y) xs)) / real (length xs))\<rparr>"

text \<open>The generator draws from the unit interval, 1 excluded.\<close>

definition unit_interval_generator :: "'g library \<Rightarrow> bool" where
  "unit_interval_generator lib =
     (\<forall>st. 0 \<le> fst (np_random_next lib st) \<and> fst (np_random_next lib st) < 1)"

section \<open>Properties\<close>

subsection \<open>Lengths of the discretization outputs\<close>

lemma length_arange [simp]: "length (arange a b) = b - a"
  by (simp add: arange_def)

lemma length_adj_diffs [simp]: "length (adj_diffs c) = length c - 1"
  by (simp add: adj_diffs_def)

lemma mass_dispersal_lengths:
  assumes "0 < n"
  shows "\<exists>r. mass_dispersal sev d u h n = Inr r
           \<and> length (nodes r) = (case u of PosInf \<Rightarrow> n | Finite e \<Rightarrow> n + 1)
           \<and> length (fj r) = length (nodes r)"
  using assms
  by (cases u) (auto simp: mass_dispersal_def extend_nodes_def Let_def arange_def)

lemma lower_discretization_lengths:
  assumes "0 < n"
  shows "\<exists>r. lower_discretization sev d u h n = Inr r
           \<and> length (nodes r) = (case u of PosInf \<Rightarrow> n | Finite e \<Rightarrow> n + 1)
           \<and> length (fj r) = length (nodes r)"
  using assms
  by (cases u) (auto simp: lower_discretization_def extend_nodes_def Let_def arange_def)

lemma local_moments_lengths:
  assumes "0 < n"
  shows "\<exists>r. local_moments sev d u h n = Inr r
           \<and> length (nodes r) = (case u of PosInf \<Rightarrow> n | Finite e \<Rightarrow> n + 1)
           \<and> length (fj r) = length (nodes r)"
  using assms
  by (cases u)
     (auto simp: local_moments_def upper_discr_point_prob_adjuster_def extend_nodes_def
        Let_def arange_def)

lemma adjuster_length:
  "length (upper_discr_point_prob_adjuster sev d u h) = (case u of PosInf \<Rightarrow> 0 | Finite e \<Rightarrow> 1)"
  by (cases u) (simp_all add: upper_discr_point_prob_adjuster_def)

lemma upper_discretization_lengths:
  "\<exists>r. upper_discretization sev d u h n = Inr r
     \<and> length (nodes r) = n
     \<and> length (fj r) = (case u of PosInf \<Rightarrow> n | Finite e \<Rightarrow> n + 1)"
  by (cases u) (auto simp: upper_discretization_def Let_def)

text \<open>
  C1. Each discretization appends one entry to both \<open>nodes\<close> and \<open>fj\<close> when the exit point
  is finite. \<open>upper_discretization\<close> does not: for the uniform severity on 0..4, deductible
  0, exit point 2, step 1 and two nodes it returns two nodes and three masses, the extra
  mass having no node.
\<close>

theorem upper_discretization_finite_exit_mismatch:
  "upper_discretization uniform4 0 (Finite 2) 1 2
     = Inr \<lparr>nodes = [0, 1], fj = [1 / 4, 1 / 4, 1 / 2]\<rparr>"
  by (simp add: upper_discretization_def uniform4_def Let_def arange_def adj_diffs_def upt_rec)

subsection \<open>Total mass of the discretization outputs\<close>

lemma adj_diffs_Cons2: "adj_diffs (x # y # ys) = (y - x) # adj_diffs (y # ys)"
  by (simp add: adj_diffs_def)

lemma sum_list_adj_diffs: "c \<noteq> [] \<Longrightarrow> sum_list (adj_diffs c) = last c - hd c"
proof (induction c rule: induct_list012)
  case 1 then show ?case by simp
next
  case (2 x) then show ?case by (simp add: adj_diffs_def)
next
  case (3 x y zs)
  then show ?case by (simp add: adj_diffs_Cons2)
qed

lemma sum_list_map_divide: "sum_list (map (\<lambda>x. x / k) xs) = sum_list xs / (k::real)"
  by (induction xs) (simp_all add: add_divide_distrib)

lemma sum_adj_diffs_map_upt:
  "a < b \<Longrightarrow> sum_list (adj_diffs (map f [a..<b])) = f (b - 1) - f a"
  by (subst sum_list_adj_diffs) (simp_all add: last_map hd_map)

lemma zip3_upt:
  "zip (map f [1..<n]) (zip (map g [0..<n - 1]) (map k [2..<n + 1]))
     = map (\<lambda>j. (f j, g (j - 1), k (j + 1))) [1..<n]"
  by (rule nth_equalityI) (auto simp del: upt_Suc)

lemma sum_second_differences:
  "0 < n \<Longrightarrow> (\<Sum>j\<leftarrow>[1..<n]. 2 * L j - L (j - 1) - L (j + 1)) = L (n - 1) - L 0 - (L n - L 1 :: real)"
proof (induction n)
  case 0 then show ?case by simp
next
  case (Suc n)
  show ?case
  proof (cases "n = 0")
    case True then show ?thesis by simp
  next
    case False
    then have "0 < n" by simp
    from Suc.IH[OF this] False show ?thesis by (cases n) simp_all
  qed
qed

lemma mass_dispersal_sum:
  assumes "0 < n"
  shows "\<exists>r. mass_dispersal sev d u h n = Inr r \<and>
     sum_list (fj r) = (sev_cdf sev (d + (real n - 1/2) * h) - sev_cdf sev d) / (1 - sev_cdf sev d)
        + (case u of PosInf \<Rightarrow> 0 | Finite e \<Rightarrow> (1 - sev_cdf sev (e - h/2)) / (1 - sev_cdf sev d))"
  using assms
  by (cases u)
   (auto simp: mass_dispersal_def extend_nodes_def Let_def arange_def sum_list_map_divide
      comp_def sum_adj_diffs_map_upt diff_divide_distrib add_divide_distrib of_nat_diff algebra_simps)

lemma lower_discretization_sum:
  assumes "0 < n"
  shows "\<exists>r. lower_discretization sev d u h n = Inr r \<and>
     sum_list (fj r) = (sev_cdf sev (d + (real n - 1) * h) - sev_cdf sev d) / (1 - sev_cdf sev d)
        + (case u of PosInf \<Rightarrow> 0 | Finite e \<Rightarrow> (1 - sev_cdf sev (e - h)) / (1 - sev_cdf sev d))"
  using assms
  by (cases u)
   (auto simp: lower_discretization_def extend_nodes_def Let_def arange_def sum_list_map_divide
      comp_def sum_adj_diffs_map_upt diff_divide_distrib add_divide_distrib of_nat_diff algebra_simps)

lemma upper_discretization_sum:
  shows "\<exists>r. upper_discretization sev d u h n = Inr r \<and>
     sum_list (fj r) = (sev_cdf sev (d + real n * h) - sev_cdf sev d) / (1 - sev_cdf sev d)
        + (case u of PosInf \<Rightarrow> 0 | Finite e \<Rightarrow> (1 - sev_cdf sev e) / (1 - sev_cdf sev d))"
  by (cases u)
   (auto simp: upper_discretization_def Let_def arange_def sum_list_map_divide
      comp_def sum_adj_diffs_map_upt diff_divide_distrib add_divide_distrib algebra_simps
      simp del: upt_Suc)

lemma nj_sum:
  fixes F :: "real \<Rightarrow> real"
  assumes "0 < n"
  shows "sum_list (map (\<lambda>(x, y, z). 2 * x - y - z)
            (zip (map F (arange 1 n)) (zip (map F (arange 0 (n - 1))) (map F (arange 2 (n + 1))))))
         = F (real (n - 1)) - F 0 - (F (real n) - F 1)"
proof -
  define L where "L = F \<circ> real"
  have "zip (map F (arange 1 n)) (zip (map F (arange 0 (n - 1))) (map F (arange 2 (n + 1))))
          = zip (map L [1..<n]) (zip (map L [0..<n - 1]) (map L [2..<n + 1]))"
    by (simp only: arange_def map_map L_def)
  also have "\<dots> = map (\<lambda>j. (L j, L (j - 1), L (j + 1))) [1..<n]"
    by (rule zip3_upt)
  finally have "sum_list (map (\<lambda>(x, y, z). 2 * x - y - z)
            (zip (map F (arange 1 n)) (zip (map F (arange 0 (n - 1))) (map F (arange 2 (n + 1))))))
       = (\<Sum>j\<leftarrow>[1..<n]. 2 * L j - L (j - 1) - L (j + 1))"
    by (simp add: comp_def)
  also have "\<dots> = L (n - 1) - L 0 - (L n - L 1)"
    by (rule sum_second_differences[OF assms])
  finally show ?thesis by (simp add: L_def)
qed

lemma local_moments_fj:
  assumes "0 < n"
  shows "\<exists>r. local_moments sev d u h n = Inr r \<and>
     fj r = (1 - (sev_lev sev (d + h - sev_loc sev) - sev_lev sev (d - sev_loc sev))
                  / (h * sev_den sev d (sev_loc sev)))
            # map (\<lambda>x. x / (h * sev_den sev d (sev_loc sev)))
                (map (\<lambda>(x, y, z). 2 * x - y - z)
                  (zip (map (\<lambda>x. sev_lev sev (d - sev_loc sev + x * h)) (arange 1 n))
                    (zip (map (\<lambda>x. sev_lev sev (d - sev_loc sev + x * h)) (arange 0 (n - 1)))
                         (map (\<lambda>x. sev_lev sev (d - sev_loc sev + x * h)) (arange 2 (n + 1))))))
            @ upper_discr_point_prob_adjuster sev d u h"
proof -
  have ne: "arange 0 n \<noteq> []" using assms by (simp add: arange_def)
  show ?thesis
    using ne by (cases u) (simp_all add: local_moments_def extend_nodes_def Let_def)
qed

lemma local_moments_sum:
  assumes "0 < n"
  shows "\<exists>r. local_moments sev d u h n = Inr r \<and>
     sum_list (fj r) = 1 - (sev_lev sev (d - sev_loc sev + real n * h)
                             - sev_lev sev (d - sev_loc sev + (real n - 1) * h))
                           / (h * sev_den sev d (sev_loc sev))
        + (case u of PosInf \<Rightarrow> 0
           | Finite e \<Rightarrow> (sev_lev sev (e - sev_loc sev) - sev_lev sev (e - sev_loc sev - h))
                          / (h * sev_den sev d (sev_loc sev)))"
proof -
  define F where "F = (\<lambda>x. sev_lev sev (d - sev_loc sev + x * h))"
  define den where "den = h * sev_den sev d (sev_loc sev)"
  obtain r where r: "local_moments sev d u h n = Inr r"
    and fjr: "fj r = (1 - (sev_lev sev (d + h - sev_loc sev) - sev_lev sev (d - sev_loc sev)) / den)
            # map (\<lambda>x. x / den)
                (map (\<lambda>(x, y, z). 2 * x - y - z)
                  (zip (map F (arange 1 n)) (zip (map F (arange 0 (n - 1))) (map F (arange 2 (n + 1))))))
            @ upper_discr_point_prob_adjuster sev d u h"
    using local_moments_fj[OF assms, of sev d u h] unfolding F_def den_def by blast
  have n1: "F (real (n - 1)) = F (real n - 1)" using assms by (simp add: of_nat_diff)
  have F1: "F 1 = sev_lev sev (d + h - sev_loc sev)" by (simp add: F_def algebra_simps)
  have F0: "F 0 = sev_lev sev (d - sev_loc sev)" by (simp add: F_def)
  have adj: "sum_list (upper_discr_point_prob_adjuster sev d u h)
      = (case u of PosInf \<Rightarrow> 0
           | Finite e \<Rightarrow> (sev_lev sev (e - sev_loc sev) - sev_lev sev (e - sev_loc sev - h)) / den)"
    by (cases u) (simp_all add: upper_discr_point_prob_adjuster_def den_def)
  have "sum_list (fj r) = (1 - (F 1 - F 0) / den)
          + (F (real (n - 1)) - F 0 - (F (real n) - F 1)) / den
          + sum_list (upper_discr_point_prob_adjuster sev d u h)"
    unfolding fjr by (simp only: sum_list.Cons sum_list_append sum_list_map_divide nj_sum[OF assms] F1 F0)
  also have "\<dots> = 1 - (F (real n) - F (real n - 1)) / den
          + sum_list (upper_discr_point_prob_adjuster sev d u h)"
    unfolding n1 by (simp add: diff_divide_distrib)
  finally show ?thesis
    using r unfolding adj by (cases u) (simp_all add: F_def den_def)
qed

text \<open>
  C4 (as amended). The sum of \<open>fj\<close> is not within tolerance of 1 for every deductible,
  exit point, step and node count: the masses telescope to the probability of the part of
  the layer that the grid covers. In exact arithmetic, for at least one node and every
  step \<open>h\<close>: for \<open>mass_dispersal\<close>, \<open>lower_discretization\<close> and \<open>upper_discretization\<close> and a
  severity with \<open>cdf(d) \<noteq> 1\<close>, and for \<open>local_moments\<close> and a non-zero \<open>discr_step * den\<close>,
  when the exit point is finite and equal to \<open>d + n * h\<close> the returned \<open>fj\<close> sums to exactly
  1, and when the exit point is infinite the sum falls short of 1 by exactly the
  conditional mass beyond the last boundary of the grid.
\<close>

theorem discretization_fj_sum:
  assumes "0 < n" and "0 \<le> tol"
  shows "(sev_cdf sev d \<noteq> 1 \<longrightarrow>
            fj_sums_to_one tol (mass_dispersal sev d (Finite (d + real n * h)) h n)
          \<and> fj_sums_to_one tol (lower_discretization sev d (Finite (d + real n * h)) h n)
          \<and> fj_sums_to_one tol (upper_discretization sev d (Finite (d + real n * h)) h n)
          \<and> fj_shortfall (mass_dispersal sev d PosInf h n)
              = Some ((1 - sev_cdf sev (d + (real n - 1 / 2) * h)) / (1 - sev_cdf sev d))
          \<and> fj_shortfall (lower_discretization sev d PosInf h n)
              = Some ((1 - sev_cdf sev (d + (real n - 1) * h)) / (1 - sev_cdf sev d))
          \<and> fj_shortfall (upper_discretization sev d PosInf h n)
              = Some ((1 - sev_cdf sev (d + real n * h)) / (1 - sev_cdf sev d)))
       \<and> (h * sev_den sev d (sev_loc sev) \<noteq> 0 \<longrightarrow>
            fj_sums_to_one tol (local_moments sev d (Finite (d + real n * h)) h n)
          \<and> fj_shortfall (local_moments sev d PosInf h n)
              = Some ((sev_lev sev (d - sev_loc sev + real n * h)
                        - sev_lev sev (d - sev_loc sev + (real n - 1) * h))
                      / (h * sev_den sev d (sev_loc sev))))"
proof (intro conjI impI)
  assume "sev_cdf sev d \<noteq> 1"
  then have c: "1 - sev_cdf sev d \<noteq> 0" by simp
  have md: "sev_cdf sev (d + real n * h - h / 2) = sev_cdf sev (d + (real n - 1 / 2) * h)"
    by (simp add: algebra_simps)
  have ld: "sev_cdf sev (d + real n * h - h) = sev_cdf sev (d + (real n - 1) * h)"
    by (simp add: algebra_simps)
  have tele: "(x - a) / (1 - a) + (1 - x) / (1 - a) = 1" if "1 - a \<noteq> 0" for x a :: real
    using that by (simp add: add_divide_distrib[symmetric])
  have short: "1 - (x - a) / (1 - a) = (1 - x) / (1 - a)" if "1 - a \<noteq> 0" for x a :: real
    using that by (simp add: field_simps)
  obtain r1 where r1: "mass_dispersal sev d (Finite (d + real n * h)) h n = Inr r1"
      "sum_list (fj r1) = 1"
    using mass_dispersal_sum[OF assms(1), of sev d "Finite (d + real n * h)" h]
    by (auto simp: md tele[OF c])
  obtain r2 where r2: "lower_discretization sev d (Finite (d + real n * h)) h n = Inr r2"
      "sum_list (fj r2) = 1"
    using lower_discretization_sum[OF assms(1), of sev d "Finite (d + real n * h)" h]
    by (auto simp: ld tele[OF c])
  obtain r3 where r3: "upper_discretization sev d (Finite (d + real n * h)) h n = Inr r3"
      "sum_list (fj r3) = 1"
    using upper_discretization_sum[of sev d "Finite (d + real n * h)" h n]
    by (auto simp: tele[OF c])
  obtain s1 where s1: "mass_dispersal sev d PosInf h n = Inr s1"
      "1 - sum_list (fj s1) = (1 - sev_cdf sev (d + (real n - 1 / 2) * h)) / (1 - sev_cdf sev d)"
    using mass_dispersal_sum[OF assms(1), of sev d PosInf h]
    by (auto simp: short[OF c])
  obtain s2 where s2: "lower_discretization sev d PosInf h n = Inr s2"
      "1 - sum_list (fj s2) = (1 - sev_cdf sev (d + (real n - 1) * h)) / (1 - sev_cdf sev d)"
    using lower_discretization_sum[OF assms(1), of sev d PosInf h]
    by (auto simp: short[OF c])
  obtain s3 where s3: "upper_discretization sev d PosInf h n = Inr s3"
      "1 - sum_list (fj s3) = (1 - sev_cdf sev (d + real n * h)) / (1 - sev_cdf sev d)"
    using upper_discretization_sum[of sev d PosInf h n]
    by (auto simp: short[OF c])
  show "fj_sums_to_one tol (mass_dispersal sev d (Finite (d + real n * h)) h n)"
    using assms(2) by (simp add: fj_sums_to_one_def r1)
  show "fj_sums_to_one tol (lower_discretization sev d (Finite (d + real n * h)) h n)"
    using assms(2) by (simp add: fj_sums_to_one_def r2)
  show "fj_sums_to_one tol (upper_discretization sev d (Finite (d + real n * h)) h n)"
    using assms(2) by (simp add: fj_sums_to_one_def r3)
  show "fj_shortfall (mass_dispersal sev d PosInf h n)
          = Some ((1 - sev_cdf sev (d + (real n - 1 / 2) * h)) / (1 - sev_cdf sev d))"
    by (simp add: fj_shortfall_def s1)
  show "fj_shortfall (lower_discretization sev d PosInf h n)
          = Some ((1 - sev_cdf sev (d + (real n - 1) * h)) / (1 - sev_cdf sev d))"
    by (simp add: fj_shortfall_def s2)
  show "fj_shortfall (upper_discretization sev d PosInf h n)
          = Some ((1 - sev_cdf sev (d + real n * h)) / (1 - sev_cdf sev d))"
    by (simp add: fj_shortfall_def s3)
next
  have lm1: "sev_lev sev (d + real n * h - sev_loc sev) = sev_lev sev (d - sev_loc sev + real n * h)"
    by (simp add: algebra_simps)
  have lm2: "sev_lev sev (d + real n * h - sev_loc sev - h)
               = sev_lev sev (d - sev_loc sev + (real n - 1) * h)"
    by (simp add: algebra_simps)
  obtain r4 where r4: "local_moments sev d (Finite (d + real n * h)) h n = Inr r4"
      "sum_list (fj r4) = 1"
    using local_moments_sum[OF assms(1), of sev d "Finite (d + real n * h)" h]
    by (auto simp: lm1 lm2)
  show "fj_sums_to_one tol (local_moments sev d (Finite (d + real n * h)) h n)"
    using assms(2) by (simp add: fj_sums_to_one_def r4)
next
  obtain s4 where s4: "local_moments sev d PosInf h n = Inr s4"
      "1 - sum_list (fj s4) = (sev_lev sev (d - sev_loc sev + real n * h)
                     - sev_lev sev (d - sev_loc sev + (real n - 1) * h))
                   / (h * sev_den sev d (sev_loc sev))"
    using local_moments_sum[OF assms(1), of sev d PosInf h]
    by auto
  show "fj_shortfall (local_moments sev d PosInf h n)
          = Some ((sev_lev sev (d - sev_loc sev + real n * h)
                    - sev_lev sev (d - sev_loc sev + (real n - 1) * h))
                  / (h * sev_den sev d (sev_loc sev)))"
    by (simp add: fj_shortfall_def s4)
qed

theorem discretization_fj_sum_witness:
  "(0::nat) < 2 \<and> (0::real) \<le> 1 / 1000000
   \<and> sev_cdf uniform4 0 \<noteq> 1 \<and> 1 * sev_den uniform4 0 (sev_loc uniform4) \<noteq> 0
   \<and> fj_sums_to_one (1 / 1000000) (mass_dispersal uniform4 0 (Finite 2) 1 2)
   \<and> fj_sums_to_one (1 / 1000000) (lower_discretization uniform4 0 (Finite 2) 1 2)
   \<and> fj_sums_to_one (1 / 1000000) (upper_discretization uniform4 0 (Finite 2) 1 2)
   \<and> fj_sums_to_one (1 / 1000000) (local_moments uniform4 0 (Finite 2) 1 2)
   \<and> fj_shortfall (mass_dispersal uniform4 0 PosInf 1 2) = Some (5 / 8)
   \<and> fj_shortfall (lower_discretization uniform4 0 PosInf 1 2) = Some (3 / 4)
   \<and> fj_shortfall (upper_discretization uniform4 0 PosInf 1 2) = Some (1 / 2)
   \<and> fj_shortfall (local_moments uniform4 0 PosInf 1 2) = Some (5 / 8)"
proof -
  have h: "(0::nat) < 2" "(0::real) \<le> 1 / 1000000"
    by simp_all
  have a: "sev_cdf uniform4 0 \<noteq> 1" "1 * sev_den uniform4 0 (sev_loc uniform4) \<noteq> 0"
    by (simp_all add: uniform4_def)
  show ?thesis
    using h a discretization_fj_sum[OF h, of uniform4 0 1] by (simp add: uniform4_def)
qed

text \<open>
  The claim as stated fails for the uniform severity with three nodes, step 1, deductible
  0 and no exit point: the masses sum to \<open>cdf(5/2) = 5/8\<close>.
\<close>

theorem mass_dispersal_sum_counterexample:
  "mass_dispersal uniform4 0 PosInf 1 3
     = Inr \<lparr>nodes = [0, 1, 2], fj = [1 / 8, 1 / 4, 1 / 4]\<rparr>
   \<and> \<not> fj_sums_to_one (1 / 1000000) (mass_dispersal uniform4 0 PosInf 1 3)"
  by (simp add: mass_dispersal_def uniform4_def Let_def arange_def adj_diffs_def
      fj_sums_to_one_def upt_rec)

subsection \<open>Fast Fourier transform and Panjer recursion\<close>

lemma cumsum_from_length [simp]: "length (cumsum_from a xs) = length xs"
  by (induction xs arbitrary: a) simp_all

lemma cumsum_from_nth:
  "k < length xs \<Longrightarrow> cumsum_from a xs ! k = a + sum_list (take (Suc k) xs)"
proof (induction xs arbitrary: a k)
  case Nil then show ?case by simp
next
  case (Cons x xs)
  show ?case
  proof (cases k)
    case 0 then show ?thesis by simp
  next
    case (Suc k')
    with Cons.prems have "k' < length xs" by simp
    from Cons.IH[OF this, of "a + x"] Suc show ?thesis by (simp add: add.assoc)
  qed
qed

lemma take_as_nth: "k \<le> length xs \<Longrightarrow> take k xs = map ((!) xs) [0..<k]"
  by (rule nth_equalityI) auto

lemma clip_cumsum: "map (\<lambda>x. min x 1) (cumsum g) = clipped_cumulative g"
  unfolding clipped_cumulative_def cumsum_def
  by (rule nth_equalityI) (simp_all add: cumsum_from_nth take_as_nth del: upt_Suc)

lemma panjer_step_invariant:
  assumes "0 < j" and "j < length f"
  shows "panjer_step a b f j (rev (map (panjer_h a b f g0) [0..<j]))
           = rev (map (panjer_h a b f g0) [0..<Suc j])"
proof -
  let ?H = "panjer_h a b f g0"
  have z: "zip (map (\<lambda>i. a + b * i / real j) (arange 1 (j + 1)))
             (zip (take j (drop 1 f)) (take j (rev (map ?H [0..<j]))))
           = map (\<lambda>i. (a + b * real i / real j, f ! i, ?H (j - i))) [1..<Suc j]"
    using assms
    by (intro nth_equalityI) (auto simp: arange_def rev_nth simp del: upt_Suc)
  have "sum_list (map (\<lambda>(c, f, x). c * f * x)
          (zip (map (\<lambda>i. a + b * i / real j) (arange 1 (j + 1)))
             (zip (take j (drop 1 f)) (take j (rev (map ?H [0..<j]))))))
        = ?H j"
    unfolding z using assms(1) by (subst (2) panjer_h.simps) (simp add: comp_def del: upt_Suc)
  then show ?thesis
    by (simp add: panjer_step_def)
qed

lemma panjer_loop:
  assumes "m \<le> length f"
  shows "fold (panjer_step a b f) [1..<m] [g0] = rev (map (panjer_h a b f g0) [0..<max 1 m])"
  using assms
proof (induction m)
  case 0 then show ?case by (simp add: panjer_h.simps)
next
  case (Suc m)
  show ?case
  proof (cases "m = 0")
    case True then show ?thesis by (simp add: panjer_h.simps)
  next
    case False
    then have m: "0 < m" "m < length f" "max 1 m = m" using Suc.prems by auto
    have "fold (panjer_step a b f) [1..<Suc m] [g0]
            = panjer_step a b f m (fold (panjer_step a b f) [1..<m] [g0])"
      using m(1) by simp
    also have "\<dots> = panjer_step a b f m (rev (map (panjer_h a b f g0) [0..<m]))"
      using Suc.IH m by simp
    also have "\<dots> = rev (map (panjer_h a b f g0) [0..<Suc m])"
      by (rule panjer_step_invariant[OF m(1,2)])
    finally show ?thesis by simp
  qed
qed

lemma length_fft [simp]: "length (fft xs) = length xs"
  by (simp add: fft_def)

lemma length_ifft [simp]: "length (ifft xs) = length xs"
  by (simp add: ifft_def)

lemma length_clipped_cumulative [simp]: "length (clipped_cumulative g) = length g"
  by (simp add: clipped_cumulative_def)

lemma length_normalised [simp]: "length (normalised flag g) = length g"
  by (simp add: normalised_def)

lemma zip_map_upt:
  "length ys = m \<Longrightarrow> zip (map f (arange 0 m)) ys = map (\<lambda>i. (f (real i), ys ! i)) [0..<m]"
  by (rule nth_equalityI) (auto simp: arange_def)

lemma pad_zeros_ok:
  "length xs \<le> m \<Longrightarrow> pad_zeros xs m = Inr (xs @ replicate (m - length xs) 0)"
  by (simp add: pad_zeros_def)

lemma fft_g:
  assumes "length f = m"
  shows "map (\<lambda>(t, x). t * x)
           (zip (map (\<lambda>i. exp (\<theta> * i)) (arange 0 m))
                (map Re (ifft (map (freq_pgf frequency)
                   (fft (map (\<lambda>(t, f). complex_of_real (t * f))
                          (zip (map (\<lambda>i. exp (- \<theta> * i)) (arange 0 m)) f)))))))
         = fft_pmf frequency f m \<theta>"
proof -
  have 1: "map (\<lambda>(t, f). complex_of_real (t * f)) (zip (map (\<lambda>i. exp (- \<theta> * i)) (arange 0 m)) f)
        = map (\<lambda>i. complex_of_real (exp (- \<theta> * real i) * f ! i)) [0..<m]"
    by (simp only: zip_map_upt[OF assms] map_map comp_def split_conv)
  let ?r = "map Re (ifft (map (freq_pgf frequency)
              (fft (map (\<lambda>i. complex_of_real (exp (- \<theta> * real i) * f ! i)) [0..<m]))))"
  have len: "length ?r = m" by simp
  have 2: "map (\<lambda>(t, x). t * x) (zip (map (\<lambda>i. exp (\<theta> * i)) (arange 0 m)) ?r)
        = map (\<lambda>i. exp (\<theta> * real i) * ?r ! i) [0..<m]"
    by (simp only: zip_map_upt[OF len] map_map comp_def split_conv)
  have 3: "map (\<lambda>i. exp (\<theta> * real i) * ?r ! i) [0..<m] = fft_pmf frequency f m \<theta>"
    unfolding fft_pmf_def by (rule map_cong) simp_all
  show ?thesis unfolding 1 2 3 ..
qed

lemma fft_result:
  assumes "0 < m" and "length (fj sev) \<le> m"
  shows "fast_fourier_transform tol sev freq m h tilt tv nrm =
     (let g = normalised nrm (fft_pmf freq (fj sev @ replicate (m - length (fj sev)) 0) m
                 (fft_theta tilt tv m));
          c = clipped_cumulative g
      in Inr (\<lparr>cdf = c, aggr_nodes = map (\<lambda>j. h * real j) [0..<m]\<rparr>,
              if 1 - last c > tol then [Warning (last c)] else []))"
proof -
  let ?f = "fj sev @ replicate (m - length (fj sev)) 0"
  have len: "length ?f = m" using assms(2) by simp
  have th: "(if tilt then case tv of None \<Rightarrow> 20 / real m | Some v \<Rightarrow> v else 0) = fft_theta tilt tv m"
    by (simp add: fft_theta_def split: option.splits)
  show ?thesis
    using assms(1)
    unfolding fast_fourier_transform_def pad_zeros_ok[OF assms(2)] th Let_def sum.case
      fft_g[OF len] clip_cumsum normalised_def[symmetric]
    by (simp add: arange_def comp_def)
qed

lemma panjer_final:
  assumes "length f = m" and "0 < m"
  shows "map (\<lambda>x. x / d) (map (\<lambda>(x, y). x + y)
            (zip (map (\<lambda>x. c * x) f) (rev (fold (panjer_step a b f) [1..<m] [g0]))))
         = map (\<lambda>j. (c * f ! j + panjer_h a b f g0 j) / d) [0..<m]"
proof -
  have "fold (panjer_step a b f) [1..<m] [g0] = rev (map (panjer_h a b f g0) [0..<m])"
    using panjer_loop[of m f a b g0] assms by (simp add: max_def)
  then show ?thesis
    using assms(1) by (intro nth_equalityI) simp_all
qed

lemma panjer_result:
  assumes "0 < m" and "length (fj sev) \<le> m" and "freq_abp0g0 freq (fj sev) = (a, b, p0, g0)"
  shows "panjer_recursion tol freq sev m h nrm =
     (let g = normalised nrm (panjer_pmf a b p0 g0 (freq_pmf freq 1)
                 (fj sev @ replicate (m - length (fj sev)) 0) m);
          c = clipped_cumulative g
      in Inr (\<lparr>cdf = c, aggr_nodes = map (\<lambda>j. h * real j) [0..<m]\<rparr>,
              if 1 - last c > tol then [Warning (last c)] else []))"
proof -
  let ?f = "fj sev @ replicate (m - length (fj sev)) 0"
  have len: "length ?f = m" using assms(2) by simp
  have ne: "?f \<noteq> []" using len assms(1) by auto
  show ?thesis
    unfolding panjer_recursion_def pad_zeros_ok[OF assms(2)] assms(3) Let_def sum.case prod.case
      panjer_final[OF len assms(1)] clip_cumsum normalised_def[symmetric] panjer_pmf_def[symmetric]
    using ne by (simp add: arange_def comp_def)
qed

text \<open>
  The code clips the cumulative sums from above only. Every returned cumulative
  probability is at most 1; the sequence is non-decreasing and non-negative when the
  masses are non-negative, which the methods do not check.
\<close>

lemma clipped_cumulative_le_one: "x \<in> set (clipped_cumulative g) \<Longrightarrow> x \<le> 1"
  by (auto simp: clipped_cumulative_def simp del: upt_Suc)

lemma clipped_cumulative_sorted:
  assumes "\<forall>x\<in>set g. 0 \<le> x"
  shows "sorted (clipped_cumulative g) \<and> (\<forall>x\<in>set (clipped_cumulative g). 0 \<le> x)"
proof -
  let ?S = "\<lambda>k. \<Sum>i\<leftarrow>[0..<Suc k]. g ! i"
  have nn: "0 \<le> g ! i" if "i < length g" for i using assms that by simp
  have step: "?S k \<le> ?S (Suc k)" if "Suc k < length g" for k
    using nn[OF that] by simp
  have mono: "?S j \<le> ?S k" if "j \<le> k" "k < length g" for j k
    using that
  proof (induction k)
    case 0 then show ?case by simp
  next
    case (Suc k)
    show ?case
    proof (cases "j = Suc k")
      case True then show ?thesis by simp
    next
      case False
      with Suc.prems have "j \<le> k" "k < length g" by simp_all
      from Suc.IH[OF this] step[OF Suc.prems(2)] show ?thesis by linarith
    qed
  qed
  have pos: "0 \<le> ?S k" if "k < length g" for k
  proof -
    have "0 < length g" using that by linarith
    then have "0 \<le> g ! 0" by (rule nn)
    also have "\<dots> = ?S 0" by simp
    also have "\<dots> \<le> ?S k" using mono[of 0 k] that by simp
    finally show ?thesis .
  qed
  have "sorted (clipped_cumulative g)"
    unfolding clipped_cumulative_def sorted_iff_nth_mono
    using mono by (auto simp del: upt_Suc sum_list.Cons intro!: min.mono simp: min.coboundedI1)
  moreover have "\<forall>x\<in>set (clipped_cumulative g). 0 \<le> x"
    unfolding clipped_cumulative_def using pos by (auto simp del: upt_Suc)
  ultimately show ?thesis by simp
qed

lemma aggregation_cdf_le_one:
  assumes "0 < m" and "length (fj sev) \<le> m"
  shows "(\<exists>res log. fast_fourier_transform tol sev freq m h tilt tv nrm = Inr (res, log)
            \<and> (\<forall>x\<in>set (cdf res). x \<le> 1))
       \<and> (\<exists>res log. panjer_recursion tol freq sev m h nrm = Inr (res, log)
            \<and> (\<forall>x\<in>set (cdf res). x \<le> 1))"
proof -
  obtain a b p0 g0 where abp: "freq_abp0g0 freq (fj sev) = (a, b, p0, g0)"
    by (cases "freq_abp0g0 freq (fj sev)") auto
  show ?thesis
    unfolding fft_result[OF assms] panjer_result[OF assms abp]
    by (simp add: Let_def clipped_cumulative_le_one)
qed

lemma panjer_recursion_eval:
  "panjer_recursion (1 / 1000000) bernoulli_half unit_claims 3 1 False
     = Inr (\<lparr>cdf = [1 / 2, 1, 1], aggr_nodes = [0, 1, 2]\<rparr>, [])"
  by (simp add: panjer_recursion_def bernoulli_half_def unit_claims_def pad_zeros_def Let_def
      panjer_step_def arange_def cumsum_def upt_rec)

lemma fast_fourier_transform_eval:
  "fast_fourier_transform (1 / 1000000) unit_claims bernoulli_half 2 1 False None False
     = Inr (\<lparr>cdf = [1 / 2, 1], aggr_nodes = [0, 1]\<rparr>, [])"
  by (simp add: fast_fourier_transform_def bernoulli_half_def unit_claims_def pad_zeros_def Let_def
      fft_def ifft_def arange_def cumsum_def upt_rec)




text \<open>
  C5. For at least one node and an \<open>fj\<close> no longer than the node count,
  \<open>fast_fourier_transform\<close> returns, and its cdf is the clipped cumulative sum of the
  (optionally normalized) masses \<open>exp(\<theta> i) Re(ifft(pgf(fft(exp(-\<theta> i) fj[i]))))[i]\<close>,
  \<open>i = 0, ..., m - 1\<close>, of the zero-padded \<open>fj\<close>, where \<open>\<theta>\<close> is the given value when
  tilting is requested with a value, \<open>20 / m\<close> when it is requested without one, and 0 when
  it is not requested.
\<close>

theorem fast_fourier_transform_refines:
  assumes "0 < m" and "length (fj sev) \<le> m"
  shows "\<exists>res log. fast_fourier_transform tol sev freq m h tilt tv nrm = Inr (res, log)
          \<and> cdf res = clipped_cumulative (normalised nrm
                (fft_pmf freq (fj sev @ replicate (m - length (fj sev)) 0) m
                   (fft_theta tilt tv m)))
          \<and> fft_theta tilt tv m
              = (if tilt then (case tv of Some v \<Rightarrow> v | None \<Rightarrow> 20 / real m) else 0)"
  unfolding fft_result[OF assms] by (simp add: Let_def fft_theta_def)

theorem fast_fourier_transform_refines_witness:
  "(0::nat) < 2 \<and> length (fj unit_claims) \<le> 2
   \<and> (\<exists>res log. fast_fourier_transform (1 / 1000000) unit_claims bernoulli_half 2 1 True None False
            = Inr (res, log)
          \<and> cdf res = clipped_cumulative (normalised False
                (fft_pmf bernoulli_half (fj unit_claims @ replicate (2 - length (fj unit_claims)) 0) 2
                   (fft_theta True None 2)))
          \<and> fft_theta True None 2 = (if True then (case None of Some v \<Rightarrow> v | None \<Rightarrow> 20 / real 2) else 0))
   \<and> fft_theta True None 2 = 10"
proof -
  have h: "(0::nat) < 2" "length (fj unit_claims) \<le> 2"
    by (simp_all add: unit_claims_def)
  have e: "fft_theta True None 2 = 10" by (simp add: fft_theta_def)
  from fast_fourier_transform_refines[OF h, of "1 / 1000000" bernoulli_half 1 True None False] h e
  show ?thesis by blast
qed

text \<open>
  C10. With the tilt flag false the tilt value is ignored: any \<open>tilt_value\<close> gives the
  result of \<open>tilt_value = None\<close>.
\<close>

theorem fft_tilt_false_ignores_tilt_value:
  "fast_fourier_transform tol sev freq m h False tv nrm
     = fast_fourier_transform tol sev freq m h False None nrm"
  by (simp add: fast_fourier_transform_def)

text \<open>
  C6. For at least one node and an \<open>fj\<close> no longer than the node count, both
  \<open>fast_fourier_transform\<close> and \<open>panjer_recursion\<close> return their result whatever the
  numbers are, the cdf has an entry for every node, and the log holds one warning,
  carrying the last cumulative probability, exactly when that probability falls short of
  1 by more than the tolerance, and nothing otherwise.
\<close>

theorem shortfall_warning:
  assumes "0 < m" and "length (fj sev) \<le> m"
  shows "(\<exists>res. fast_fourier_transform tol sev freq m h tilt tv nrm
            = Inr (res, if 1 - last (cdf res) > tol then [Warning (last (cdf res))] else [])
          \<and> length (cdf res) = m)
       \<and> (\<exists>res. panjer_recursion tol freq sev m h nrm
            = Inr (res, if 1 - last (cdf res) > tol then [Warning (last (cdf res))] else [])
          \<and> length (cdf res) = m)"
proof -
  obtain a b p0 g0 where abp: "freq_abp0g0 freq (fj sev) = (a, b, p0, g0)"
    by (cases "freq_abp0g0 freq (fj sev)") auto
  show ?thesis
    unfolding fft_result[OF assms] panjer_result[OF assms abp]
    by (simp add: Let_def fft_pmf_def panjer_pmf_def)
qed

text \<open>A severity whose whole mass lies beyond the grid: both methods warn and return.\<close>

theorem shortfall_warning_witness:
  "(0::nat) < 2 \<and> length (fj \<lparr>nodes = [0], fj = [0]\<rparr>) \<le> 2
   \<and> ((\<exists>res. fast_fourier_transform (1 / 1000000) \<lparr>nodes = [0], fj = [0]\<rparr> bernoulli_half 2 1
               False None False
            = Inr (res, if 1 - last (cdf res) > 1 / 1000000 then [Warning (last (cdf res))] else [])
          \<and> length (cdf res) = 2)
       \<and> (\<exists>res. panjer_recursion (1 / 1000000) bernoulli_half \<lparr>nodes = [0], fj = [0]\<rparr> 2 1 False
            = Inr (res, if 1 - last (cdf res) > 1 / 1000000 then [Warning (last (cdf res))] else [])
          \<and> length (cdf res) = 2))
   \<and> fast_fourier_transform (1 / 1000000) \<lparr>nodes = [0], fj = [0]\<rparr> bernoulli_half 2 1
         False None False
       = Inr (\<lparr>cdf = [1 / 2, 1 / 2], aggr_nodes = [0, 1]\<rparr>, [Warning (1 / 2)])
   \<and> panjer_recursion (1 / 1000000) bernoulli_half \<lparr>nodes = [0], fj = [0]\<rparr> 2 1 False
       = Inr (\<lparr>cdf = [1 / 2, 1 / 2], aggr_nodes = [0, 1]\<rparr>, [Warning (1 / 2)])"
proof -
  have h: "(0::nat) < 2" "length (fj \<lparr>nodes = [0], fj = [0]\<rparr>) \<le> 2"
    by simp_all
  have e1: "fast_fourier_transform (1 / 1000000) \<lparr>nodes = [0], fj = [0]\<rparr> bernoulli_half 2 1
         False None False
       = Inr (\<lparr>cdf = [1 / 2, 1 / 2], aggr_nodes = [0, 1]\<rparr>, [Warning (1 / 2)])"
    by (simp add: fast_fourier_transform_def bernoulli_half_def pad_zeros_def Let_def
      fft_def ifft_def arange_def cumsum_def upt_rec)
  have e2: "panjer_recursion (1 / 1000000) bernoulli_half \<lparr>nodes = [0], fj = [0]\<rparr> 2 1 False
       = Inr (\<lparr>cdf = [1 / 2, 1 / 2], aggr_nodes = [0, 1]\<rparr>, [Warning (1 / 2)])"
    by (simp add: panjer_recursion_def bernoulli_half_def pad_zeros_def Let_def
      panjer_step_def arange_def cumsum_def upt_rec)
  from shortfall_warning[OF h, of "1 / 1000000" bernoulli_half 1 False None False] h e1 e2
  show ?thesis by blast
qed

subsection \<open>Monte Carlo simulation: sampling and grouping\<close>

lemma mc_simulation_eval:
  "mc_simulation counter_library uniform4 bernoulli_half 10 0 3 0 7
     = Inr (\<lparr>cdf = [2 / 3, 1], aggr_nodes = [0, 1]\<rparr>, 2)"
  by (simp add: mc_simulation_def mc_svsample_def mc_xsim_def mc_p0_def np_random_uniform_def
      np_split_def py_slice_def np_unique_def counter_library_def uniform4_def bernoulli_half_def
      Let_def upt_rec)

lemma random_sample_length:
  "random_sample nxt n st = (xs, st1) \<Longrightarrow> length xs = n"
  by (induction n arbitrary: st xs st1) (auto split: prod.splits)

lemma cumsum_nat_from_length [simp]: "length (cumsum_nat_from a xs) = length xs"
  by (induction xs arbitrary: a) simp_all

lemma cumsum_nat_from_nth:
  "k < length xs \<Longrightarrow> cumsum_nat_from a xs ! k = a + sum_list (take (Suc k) xs)"
proof (induction xs arbitrary: a k)
  case Nil then show ?case by simp
next
  case (Cons x xs)
  show ?case
  proof (cases k)
    case 0 then show ?thesis by simp
  next
    case (Suc k')
    with Cons.prems have "k' < length xs" by simp
    from Cons.IH[OF this, of "a + x"] Suc show ?thesis by simp
  qed
qed

lemma div_points_nth:
  assumes "0 < n" and "length fq = n" and "length sv = sum_list fq" and "i \<le> n"
  shows "(0 # take (n - 1) (cumsum_nat_from 0 fq) @ [length sv]) ! i = sum_list (take i fq)"
proof -
  consider "i = 0" | "0 < i" "i < n" | "i = n" using assms(4) by linarith
  then show ?thesis
  proof cases
    case 1 then show ?thesis by simp
  next
    case 2
    then have "(0 # take (n - 1) (cumsum_nat_from 0 fq) @ [length sv]) ! i
                 = cumsum_nat_from 0 fq ! (i - 1)"
      using assms(2) 2 by (cases i) (auto simp: nth_append)
    also have "\<dots> = sum_list (take i fq)"
      using 2 assms(2) by (simp add: cumsum_nat_from_nth)
    finally show ?thesis .
  next
    case 3
    then show ?thesis
      using assms(1,2,3) by (cases i) (simp_all add: nth_append)
  qed
qed

lemma mc_xsim_length:
  assumes "0 < n" and "length fq = n"
  shows "length (mc_xsim sv fq n) = n"
  using assms by (simp add: mc_xsim_def np_split_def Let_def)

lemma mc_xsim_nth:
  assumes "0 < n" and "length fq = n" and "length sv = sum_list fq" and "k < n"
  shows "mc_xsim sv fq n ! k = sum_list (take (fq ! k) (drop (sum_list (take k fq)) sv))"
proof -
  let ?dp = "0 # take (n - 1) (cumsum_nat_from 0 fq) @ [length sv]"
  have a: "?dp ! k = sum_list (take k fq)"
    using div_points_nth[OF assms(1,2,3), of k] assms(4) by simp
  have b: "?dp ! (k + 1) = sum_list (take k fq) + fq ! k"
    using div_points_nth[OF assms(1,2,3), of "k + 1"] assms(2,4)
    by (simp add: take_Suc_conv_app_nth)
  have "mc_xsim sv fq n ! k = sum_list (py_slice sv (?dp ! k) (?dp ! (k + 1)))"
    using assms(1,2,4) by (simp add: mc_xsim_def np_split_def Let_def del: upt_Suc)
  then show ?thesis unfolding a b by (simp add: py_slice_def)
qed

lemma random_sample_range:
  assumes "unit_interval_generator lib"
  shows "random_sample (np_random_next lib) n st = (xs, st1) \<Longrightarrow> r \<in> set xs \<Longrightarrow> 0 \<le> r \<and> r < 1"
proof (induction n arbitrary: st xs st1)
  case 0 then show ?case by simp
next
  case (Suc n)
  obtain x st2 where x: "np_random_next lib st = (x, st2)" by (cases "np_random_next lib st")
  obtain ys st3 where ys: "random_sample (np_random_next lib) n st2 = (ys, st3)"
    by (cases "random_sample (np_random_next lib) n st2")
  from Suc.prems(1) x ys have xs: "xs = x # ys" by simp
  have "0 \<le> x \<and> x < 1"
    using assms x unfolding unit_interval_generator_def by (metis fst_conv)
  with Suc.IH[OF ys] Suc.prems(2) xs show ?case by auto
qed

lemma np_random_uniform_length:
  "np_random_uniform lib low high n st = (us, st1) \<Longrightarrow> length us = n"
  by (auto simp: np_random_uniform_def split: prod.splits dest: random_sample_length)

lemma np_random_uniform_range:
  assumes "unit_interval_generator lib" and "low < high"
    and "np_random_uniform lib low high n st = (us, st1)" and "u \<in> set us"
  shows "low \<le> u \<and> u < high"
proof -
  obtain rs where rs: "random_sample (np_random_next lib) n st = (rs, st1)"
    and us: "us = map (\<lambda>r. low + (high - low) * r) rs"
    using assms(3) by (auto simp: np_random_uniform_def split: prod.splits)
  from assms(4) us obtain r where r: "r \<in> set rs" "u = low + (high - low) * r" by auto
  from random_sample_range[OF assms(1) rs r(1)] have r01: "0 \<le> r" "r < 1" by simp_all
  have "(high - low) * r < (high - low) * 1"
    using r01 assms(2) by (intro mult_strict_left_mono) simp_all
  moreover have "0 \<le> (high - low) * r" using r01 assms(2) by simp
  ultimately show ?thesis using r(2) by simp
qed

lemma mc_simulation_result:
  assumes "freq_rvs freq n_sim rs = Inr fq" and "0 \<le> rs + 1" and "rs + 1 < 2 ^ 32"
  shows "\<exists>us st1 res.
           np_random_uniform lib (mc_p0 sev d) 1 (sum_list fq) (np_random_seed lib (rs + 1))
             = (us, st1)
         \<and> length us = sum_list fq
         \<and> mc_svsample lib sev cover d fq rs
             = Inr (map (\<lambda>u. min (sev_ppf sev u - d) cover) us, st1)
         \<and> mc_simulation lib sev freq cover d n_sim rs st = Inr (res, st1)
         \<and> aggr_nodes res
             = np_unique (mc_xsim (map (\<lambda>u. min (sev_ppf sev u - d) cover) us) fq n_sim)
         \<and> cdf res
             = map (hf_ecdf lib (mc_xsim (map (\<lambda>u. min (sev_ppf sev u - d) cover) us) fq n_sim))
                 (aggr_nodes res)"
proof -
  obtain us st1 where u:
    "np_random_uniform lib (mc_p0 sev d) 1 (sum_list fq) (np_random_seed lib (rs + 1)) = (us, st1)"
    by (cases "np_random_uniform lib (mc_p0 sev d) 1 (sum_list fq) (np_random_seed lib (rs + 1))")
  have sv: "mc_svsample lib sev cover d fq rs
              = Inr (map (\<lambda>u. min (sev_ppf sev u - d) cover) us, st1)"
    using assms(2,3) by (simp add: mc_svsample_def u comp_def)
  show ?thesis
    using u np_random_uniform_length[OF u] sv
    by (simp add: mc_simulation_def assms(1) Let_def)
qed

lemma mc_hyps:
  "freq_rvs bernoulli_half 3 0 = Inr [0, 1, 0]" "0 \<le> (0::int) + 1" "(0::int) + 1 < 2 ^ 32"
  "(0::nat) < 3" "length [0, 1, 0::nat] = 3"
  by (simp_all add: bernoulli_half_def upt_rec)

lemma counter_library_unit_interval: "unit_interval_generator counter_library"
  by (simp add: unit_interval_generator_def counter_library_def)

text \<open>
  C7. \<open>mc_simulation\<close> is determined by its arguments and the seed: whatever the state of
  the global generator when it is called, the result is the same; the claim counts are
  \<open>rvs(n_sim, random_state)\<close>, and the severity variates are drawn from the generator
  seeded with \<open>random_state + 1\<close>. (For a sampler that returns and a seed that
  \<open>np.random.seed\<close> accepts.)
\<close>

theorem mc_simulation_deterministic:
  assumes "freq_rvs freq n_sim rs = Inr fq" and "0 \<le> rs + 1" and "rs + 1 < 2 ^ 32"
  shows "mc_simulation lib sev freq cover d n_sim rs st
           = mc_simulation lib sev freq cover d n_sim rs st'
       \<and> (\<exists>us st1 res.
             np_random_uniform lib (mc_p0 sev d) 1 (sum_list fq) (np_random_seed lib (rs + 1))
               = (us, st1)
           \<and> mc_simulation lib sev freq cover d n_sim rs st = Inr (res, st1)
           \<and> aggr_nodes res
               = np_unique (mc_xsim (map (\<lambda>u. min (sev_ppf sev u - d) cover) us) fq n_sim)
           \<and> cdf res
               = map (hf_ecdf lib (mc_xsim (map (\<lambda>u. min (sev_ppf sev u - d) cover) us) fq n_sim))
                   (aggr_nodes res))"
proof
  show "mc_simulation lib sev freq cover d n_sim rs st
           = mc_simulation lib sev freq cover d n_sim rs st'"
    by (simp add: mc_simulation_def)
  show "\<exists>us st1 res.
             np_random_uniform lib (mc_p0 sev d) 1 (sum_list fq) (np_random_seed lib (rs + 1))
               = (us, st1)
           \<and> mc_simulation lib sev freq cover d n_sim rs st = Inr (res, st1)
           \<and> aggr_nodes res
               = np_unique (mc_xsim (map (\<lambda>u. min (sev_ppf sev u - d) cover) us) fq n_sim)
           \<and> cdf res
               = map (hf_ecdf lib (mc_xsim (map (\<lambda>u. min (sev_ppf sev u - d) cover) us) fq n_sim))
                   (aggr_nodes res)"
    using mc_simulation_result[OF assms, of lib sev d cover st] by blast
qed

theorem mc_simulation_deterministic_witness:
  "freq_rvs bernoulli_half 3 0 = Inr [0, 1, 0] \<and> 0 \<le> (0::int) + 1 \<and> (0::int) + 1 < 2 ^ 32
   \<and> mc_simulation counter_library uniform4 bernoulli_half 10 0 3 0 7
        = mc_simulation counter_library uniform4 bernoulli_half 10 0 3 0 99
   \<and> (\<exists>us st1 res.
         np_random_uniform counter_library (mc_p0 uniform4 0) 1 (sum_list [0, 1, 0])
            (np_random_seed counter_library (0 + 1)) = (us, st1)
       \<and> mc_simulation counter_library uniform4 bernoulli_half 10 0 3 0 7 = Inr (res, st1)
       \<and> aggr_nodes res
           = np_unique (mc_xsim (map (\<lambda>u. min (sev_ppf uniform4 u - 0) 10) us) [0, 1, 0] 3)
       \<and> cdf res
           = map (hf_ecdf counter_library
                    (mc_xsim (map (\<lambda>u. min (sev_ppf uniform4 u - 0) 10) us) [0, 1, 0] 3))
               (aggr_nodes res))
   \<and> mc_simulation counter_library uniform4 bernoulli_half 10 0 3 0 99
        = Inr (\<lparr>cdf = [2 / 3, 1], aggr_nodes = [0, 1]\<rparr>, 2)"
proof -
  have e: "mc_simulation counter_library uniform4 bernoulli_half 10 0 3 0 99
        = Inr (\<lparr>cdf = [2 / 3, 1], aggr_nodes = [0, 1]\<rparr>, 2)"
    by (simp add: mc_simulation_def mc_svsample_def mc_xsim_def mc_p0_def np_random_uniform_def
      np_split_def py_slice_def np_unique_def counter_library_def uniform4_def bernoulli_half_def
      Let_def upt_rec)
  from mc_simulation_deterministic[OF mc_hyps(1,2,3), where lib = counter_library
      and sev = uniform4 and cover = 10 and d = 0 and st = 7 and st' = 99] mc_hyps e
  show ?thesis by blast
qed

text \<open>
  C8. In \<open>mc_simulation\<close>, \<open>p0\<close> is \<open>cdf(deductible)\<close> when the deductible exceeds
  \<open>1e-5\<close> and 0 otherwise; as many uniform variates are drawn as the claim counts sum to,
  each in the interval from \<open>p0\<close> to 1 (for a generator on the unit interval and
  \<open>p0 < 1\<close>); each is mapped by the inverse cdf and then to
  \<open>min(x - deductible, cover)\<close>, and these values are what is aggregated.
\<close>

theorem mc_simulation_sampling:
  assumes "freq_rvs freq n_sim rs = Inr fq" and "0 \<le> rs + 1" and "rs + 1 < 2 ^ 32"
  shows "mc_p0 sev d = (if 1 / 100000 < d then sev_cdf sev d else 0)
       \<and> (\<exists>us st1 res.
             np_random_uniform lib (mc_p0 sev d) 1 (sum_list fq) (np_random_seed lib (rs + 1))
               = (us, st1)
           \<and> length us = sum_list fq
           \<and> (unit_interval_generator lib \<and> mc_p0 sev d < 1
                \<longrightarrow> (\<forall>u\<in>set us. mc_p0 sev d \<le> u \<and> u < 1))
           \<and> mc_svsample lib sev cover d fq rs
               = Inr (map (\<lambda>u. min (sev_ppf sev u - d) cover) us, st1)
           \<and> mc_simulation lib sev freq cover d n_sim rs st = Inr (res, st1)
           \<and> aggr_nodes res
               = np_unique (mc_xsim (map (\<lambda>u. min (sev_ppf sev u - d) cover) us) fq n_sim))"
proof
  show "mc_p0 sev d = (if 1 / 100000 < d then sev_cdf sev d else 0)"
    by (simp add: mc_p0_def)
  from mc_simulation_result[OF assms, of lib sev d cover st] obtain us st1 res where
    r: "np_random_uniform lib (mc_p0 sev d) 1 (sum_list fq) (np_random_seed lib (rs + 1)) = (us, st1)"
       "length us = sum_list fq"
       "mc_svsample lib sev cover d fq rs
             = Inr (map (\<lambda>u. min (sev_ppf sev u - d) cover) us, st1)"
       "mc_simulation lib sev freq cover d n_sim rs st = Inr (res, st1)"
       "aggr_nodes res
             = np_unique (mc_xsim (map (\<lambda>u. min (sev_ppf sev u - d) cover) us) fq n_sim)"
    by blast
  have rng: "unit_interval_generator lib \<and> mc_p0 sev d < 1
                \<longrightarrow> (\<forall>u\<in>set us. mc_p0 sev d \<le> u \<and> u < 1)"
    using np_random_uniform_range[OF _ _ r(1)] by blast
  show "\<exists>us st1 res.
             np_random_uniform lib (mc_p0 sev d) 1 (sum_list fq) (np_random_seed lib (rs + 1))
               = (us, st1)
           \<and> length us = sum_list fq
           \<and> (unit_interval_generator lib \<and> mc_p0 sev d < 1
                \<longrightarrow> (\<forall>u\<in>set us. mc_p0 sev d \<le> u \<and> u < 1))
           \<and> mc_svsample lib sev cover d fq rs
               = Inr (map (\<lambda>u. min (sev_ppf sev u - d) cover) us, st1)
           \<and> mc_simulation lib sev freq cover d n_sim rs st = Inr (res, st1)
           \<and> aggr_nodes res
               = np_unique (mc_xsim (map (\<lambda>u. min (sev_ppf sev u - d) cover) us) fq n_sim)"
    using r rng by blast
qed

theorem mc_simulation_sampling_witness:
  "freq_rvs bernoulli_half 3 0 = Inr [0, 1, 0] \<and> 0 \<le> (0::int) + 1 \<and> (0::int) + 1 < 2 ^ 32
   \<and> mc_p0 uniform4 2 = (if 1 / 100000 < (2::real) then sev_cdf uniform4 2 else 0)
   \<and> mc_p0 uniform4 2 = 1 / 2
   \<and> mc_svsample counter_library uniform4 10 2 [0, 1, 0] 0 = Inr ([1 / 2], 2)
   \<and> (\<exists>us st1 res.
         np_random_uniform counter_library (mc_p0 uniform4 2) 1 (sum_list [0, 1, 0])
            (np_random_seed counter_library (0 + 1)) = (us, st1)
       \<and> length us = sum_list [0, 1, 0]
       \<and> (\<forall>u\<in>set us. mc_p0 uniform4 2 \<le> u \<and> u < 1)
       \<and> mc_svsample counter_library uniform4 10 2 [0, 1, 0] 0
           = Inr (map (\<lambda>u. min (sev_ppf uniform4 u - 2) 10) us, st1)
       \<and> mc_simulation counter_library uniform4 bernoulli_half 10 2 3 0 7 = Inr (res, st1)
       \<and> aggr_nodes res
           = np_unique (mc_xsim (map (\<lambda>u. min (sev_ppf uniform4 u - 2) 10) us) [0, 1, 0] 3))"
proof -
  have p: "mc_p0 uniform4 2 = 1 / 2" "mc_p0 uniform4 2 < 1"
    by (simp_all add: mc_p0_def uniform4_def)
  have e: "mc_svsample counter_library uniform4 10 2 [0, 1, 0] 0 = Inr ([1 / 2], 2)"
    by (simp add: mc_svsample_def mc_p0_def np_random_uniform_def counter_library_def uniform4_def)
  from mc_simulation_sampling[OF mc_hyps(1,2,3), where lib = counter_library
      and sev = uniform4 and cover = 10 and d = 2 and st = 7]
    mc_hyps p e counter_library_unit_interval
  show ?thesis by blast
qed

text \<open>
  C9. For at least one simulation and a sampler that returns \<open>n_sim\<close> counts,
  \<open>mc_simulation\<close> forms exactly \<open>n_sim\<close> aggregate realizations; realization \<open>k\<close> is the
  sum of the \<open>fqsample[k]\<close> severity values that follow the first
  \<open>fqsample[0] + ... + fqsample[k - 1]\<close>, so a year with no claim has an empty group and
  realization 0.
\<close>

theorem mc_simulation_zero_claim_years:
  assumes "freq_rvs freq n_sim rs = Inr fq" and "0 \<le> rs + 1" and "rs + 1 < 2 ^ 32"
    and "0 < n_sim" and "length fq = n_sim"
  shows "\<exists>sv st1 res.
           mc_svsample lib sev cover d fq rs = Inr (sv, st1)
         \<and> mc_simulation lib sev freq cover d n_sim rs st = Inr (res, st1)
         \<and> aggr_nodes res = np_unique (mc_xsim sv fq n_sim)
         \<and> length (mc_xsim sv fq n_sim) = n_sim
         \<and> (\<forall>k<n_sim. mc_xsim sv fq n_sim ! k
                          = sum_list (take (fq ! k) (drop (sum_list (take k fq)) sv)))
         \<and> (\<forall>k<n_sim. fq ! k = 0 \<longrightarrow> mc_xsim sv fq n_sim ! k = 0)"
proof -
  from mc_simulation_result[OF assms(1,2,3), of lib sev d cover st] obtain us st1 res where
    r: "length us = sum_list fq"
       "mc_svsample lib sev cover d fq rs
             = Inr (map (\<lambda>u. min (sev_ppf sev u - d) cover) us, st1)"
       "mc_simulation lib sev freq cover d n_sim rs st = Inr (res, st1)"
       "aggr_nodes res
             = np_unique (mc_xsim (map (\<lambda>u. min (sev_ppf sev u - d) cover) us) fq n_sim)"
    by blast
  define sv where "sv = map (\<lambda>u. min (sev_ppf sev u - d) cover) us"
  have len: "length sv = sum_list fq" using r(1) by (simp add: sv_def)
  have nth: "\<forall>k<n_sim. mc_xsim sv fq n_sim ! k
                          = sum_list (take (fq ! k) (drop (sum_list (take k fq)) sv))"
    using mc_xsim_nth[OF assms(4,5) len] by blast
  then have zero: "\<forall>k<n_sim. fq ! k = 0 \<longrightarrow> mc_xsim sv fq n_sim ! k = 0"
    by simp
  have "mc_svsample lib sev cover d fq rs = Inr (sv, st1)
         \<and> mc_simulation lib sev freq cover d n_sim rs st = Inr (res, st1)
         \<and> aggr_nodes res = np_unique (mc_xsim sv fq n_sim)
         \<and> length (mc_xsim sv fq n_sim) = n_sim
         \<and> (\<forall>k<n_sim. mc_xsim sv fq n_sim ! k
                          = sum_list (take (fq ! k) (drop (sum_list (take k fq)) sv)))
         \<and> (\<forall>k<n_sim. fq ! k = 0 \<longrightarrow> mc_xsim sv fq n_sim ! k = 0)"
    using r(2,3,4) mc_xsim_length[OF assms(4,5), of sv] nth zero unfolding sv_def[symmetric]
    by blast
  then show ?thesis by blast
qed

theorem mc_simulation_zero_claim_years_witness:
  "freq_rvs bernoulli_half 3 0 = Inr [0, 1, 0] \<and> 0 \<le> (0::int) + 1 \<and> (0::int) + 1 < 2 ^ 32
   \<and> (0::nat) < 3 \<and> length [0, 1, 0::nat] = 3
   \<and> (\<exists>sv st1 res.
         mc_svsample counter_library uniform4 10 0 [0, 1, 0] 0 = Inr (sv, st1)
       \<and> mc_simulation counter_library uniform4 bernoulli_half 10 0 3 0 7 = Inr (res, st1)
       \<and> aggr_nodes res = np_unique (mc_xsim sv [0, 1, 0] 3)
       \<and> length (mc_xsim sv [0, 1, 0] 3) = 3
       \<and> (\<forall>k<3. mc_xsim sv [0, 1, 0] 3 ! k
                    = sum_list (take ([0, 1, 0] ! k) (drop (sum_list (take k [0, 1, 0])) sv)))
       \<and> (\<forall>k<3. [0, 1, 0] ! k = (0::nat) \<longrightarrow> mc_xsim sv [0, 1, 0] 3 ! k = 0))
   \<and> mc_svsample counter_library uniform4 10 0 [0, 1, 0] 0 = Inr ([1], 2)
   \<and> mc_xsim [1] [0, 1, 0] 3 = [0, 1, 0]"
proof -
  have e: "mc_svsample counter_library uniform4 10 0 [0, 1, 0] 0 = Inr ([1], 2)"
    "mc_xsim [1] [0, 1, 0] 3 = [0, 1, 0]"
    by (simp_all add: mc_svsample_def mc_p0_def np_random_uniform_def counter_library_def
        uniform4_def mc_xsim_def np_split_def py_slice_def Let_def upt_rec)
  from mc_simulation_zero_claim_years[OF mc_hyps, where lib = counter_library
      and sev = uniform4 and cover = 10 and d = 0 and st = 7] mc_hyps e
  show ?thesis by blast
qed

end
